theory Spec2Isabelle
  imports Main "HOL-Library.Word" "HOL-Library.Signed_Division"
begin

section \<open>STM Shell demo: the command functions and command blocks of shell_pfs.c\<close>

text \<open>
  The target is a 32-bit STM32: \<open>int\<close> and \<open>long\<close> are 32 bits wide,
  \<open>long long\<close> is 64 bits wide. Arithmetic on them is arithmetic on words
  (it wraps), comparisons with \<open>>\<close> read them as signed.

  shell_pfs.c defines \<open>USING_STATE_MACHINE_MACROS\<close>, so the versions of
  \<open>command_cnt\<close> and \<open>command_flash\<close> that are compiled are the ones written with
  the macros \<open>STATE_MACHINE\<close>, \<open>STATE\<close> (a \<open>break\<close> followed by a \<open>case\<close>
  label) and \<open>RETURN\<close>; these are the ones embedded here. A \<open>switch\<close> without a
  \<open>default\<close> label does nothing for a state that has no case.
\<close>

type_synonym cint = "32 word"
type_synonym clong = "32 word"
type_synonym clonglong = "64 word"

subsection \<open>Function pointers, the shell's globals, the hardware\<close>

text \<open>
  The functions a function pointer of the program can hold: \<open>shell_state_output\<close>
  and the four command functions of this file. The other phase functions of the shell
  (they live in shell.c and are never named here) are \<open>Other_func\<close>. The null
  pointer \<open>0\<close> is \<open>None\<close>.
\<close>

datatype func =
    Shell_state_output
  | Command_cnt
  | Command_led_toggle
  | Command_load
  | Command_flash
  | Other_func nat

text \<open>
  The fields of the global \<open>shell_state\<close> that shell_pfs.c reads or writes:
  \<open>shell_state.input\<close> and \<open>shell_state.output\<close> (the two text buffers, C
  strings), \<open>shell_state.busy\<close> (only ever compared with 0) and
  \<open>shell_state.command_fp\<close>.
\<close>

record t_shell_state =
  input_buf :: string
  output_buf :: string
  busy :: cint
  command_fp :: "func option"

datatype GPIO_PinState = GPIO_PIN_RESET | GPIO_PIN_SET

text \<open>One call of the HAL on the LED pin, as it is seen from outside.\<close>

datatype gpio_call = WritePin GPIO_PinState | TogglePin

text \<open>
  Everything a command function can read or write: the globals \<open>shell_fp\<close> and
  \<open>shell_state\<close>, the \<open>static\<close> locals of each command function (they keep
  their value between calls, and no other function can reach them), the level of the
  LED pin and the sequence of HAL calls made on it so far.
\<close>

record world =
  shell_fp :: "func option"
  shell_state :: t_shell_state
  cnt_cnt :: cint
  cnt_state :: cint
  load_cnt :: cint
  load_state :: cint
  load_accu :: clonglong
  flash_state :: cint
  flash_arg :: cint
  flash_delay :: cint
  led_pin :: GPIO_PinState
  gpio_log :: "gpio_call list"

definition HAL_GPIO_WritePin :: "GPIO_PinState \<Rightarrow> world \<Rightarrow> world" where
  "HAL_GPIO_WritePin st w = w\<lparr>led_pin := st, gpio_log := gpio_log w @ [WritePin st]\<rparr>"

definition HAL_GPIO_TogglePin :: "world \<Rightarrow> world" where
  "HAL_GPIO_TogglePin w =
     w\<lparr>led_pin := (if led_pin w = GPIO_PIN_SET then GPIO_PIN_RESET else GPIO_PIN_SET),
       gpio_log := gpio_log w @ [TogglePin]\<rparr>"

text \<open>The macro \<open>LED(a)\<close>, with \<open>SHELL_NO_LED\<close> not defined.\<close>

definition LED :: "cint \<Rightarrow> world \<Rightarrow> world" where
  "LED a w = HAL_GPIO_WritePin (if a = 1 then GPIO_PIN_SET else GPIO_PIN_RESET) w"

subsection \<open>The macros that end a command\<close>

text \<open>\<open>DONE\<close>: \<open>shell_fp = shell_state_output; shell_state.command_fp = 0;\<close>\<close>

definition DONE :: "world \<Rightarrow> world" where
  "DONE w = w\<lparr>shell_fp := Some Shell_state_output,
              shell_state := (shell_state w)\<lparr>command_fp := None\<rparr>\<rparr>"

text \<open>
  \<open>RETURN\<close>: \<open>state = 0;\<close> and then what \<open>DONE\<close> does. \<open>state\<close> is the static
  of the function the macro is used in, so the macro takes that field's update.
\<close>

definition RETURN :: "((cint \<Rightarrow> cint) \<Rightarrow> world \<Rightarrow> world) \<Rightarrow> world \<Rightarrow> world" where
  "RETURN state_update w = DONE (state_update (\<lambda>_. 0) w)"

subsection \<open>Formatted output\<close>

fun dec_of_nat :: "nat \<Rightarrow> string" where
  "dec_of_nat n =
     (if n < 10 then [char_of (48 + n)]
      else dec_of_nat (n div 10) @ [char_of (48 + n mod 10)])"

declare dec_of_nat.simps [simp del]

text \<open>The conversion \<open>%i\<close> (and \<open>%li\<close>) of printf: signed decimal.\<close>

definition printf_i :: "int \<Rightarrow> string" where
  "printf_i i = (if i < 0 then CHR ''-'' # dec_of_nat (nat (- i)) else dec_of_nat (nat i))"

definition CRLF :: string where
  "CRLF = [CHR 0x0D, CHR 0x0A]"

subsection \<open>command_cnt\<close>

definition command_cnt :: "world \<Rightarrow> world" where
  "command_cnt w =
     (if cnt_state w = 0 then
        w\<lparr>shell_state := (shell_state w)
             \<lparr>output_buf := CRLF @ ''Called '' @ printf_i (sint (cnt_cnt w)) @ '' times''\<rparr>,
          shell_fp := Some Shell_state_output,
          cnt_state := 1\<rparr>
      else if cnt_state w = 1 then
        RETURN cnt_state_update (w\<lparr>cnt_cnt := cnt_cnt w + 1\<rparr>)
      else w)"

subsection \<open>command_led_toggle\<close>

definition command_led_toggle :: "world \<Rightarrow> world" where
  "command_led_toggle w =
     (let w1 = HAL_GPIO_TogglePin w;
          w2 = w1\<lparr>shell_fp := Some Shell_state_output\<rparr>
      in w2\<lparr>shell_state := (shell_state w2)\<lparr>command_fp := None\<rparr>\<rparr>)"

subsection \<open>command_load\<close>

text \<open>
  The loop \<open>for (k = 0; k < 10000; k++) accu += k * cnt;\<close>: the product is a
  product of two \<open>int\<close>, widened to \<open>long long\<close> with its sign.
\<close>

definition load_loop :: "cint \<Rightarrow> clonglong \<Rightarrow> clonglong" where
  "load_loop cnt accu = foldl (\<lambda>acc k. acc + scast (of_nat k * cnt :: cint)) accu [0..<10000]"

text \<open>
  \<open>(long) (accu / 10000)\<close>: the division of C truncates towards zero, the cast keeps
  the low 32 bits.
\<close>

definition accu_shown :: "clonglong \<Rightarrow> clong" where
  "accu_shown accu = word_of_int (sint accu sdiv 10000)"

definition command_load :: "world \<Rightarrow> world" where
  "command_load w =
     (if load_state w = 0 then
        (if busy (shell_state w) = 0 then w\<lparr>load_state := 1\<rparr> else w)
      else if load_state w = 1 then
        w\<lparr>shell_state := (shell_state w)
             \<lparr>output_buf := CRLF @ ''Values : '' @ printf_i (sint (load_cnt w)) @ '' ''
                             @ printf_i (sint (accu_shown (load_accu w)))\<rparr>,
          load_cnt := load_cnt w + 1,
          shell_fp := Some Shell_state_output,
          load_state := 2\<rparr>
      else if load_state w = 2 then
        (let w1 = w\<lparr>load_state := 0\<rparr>
         in if load_cnt w1 = 500 then
              (let w2 = w1\<lparr>load_cnt := 0, shell_fp := Some Shell_state_output\<rparr>
               in w2\<lparr>shell_state := (shell_state w2)\<lparr>command_fp := None\<rparr>\<rparr>)
            else w1\<lparr>load_accu := load_loop (load_cnt w1) (load_accu w1)\<rparr>)
      else w)"

subsection \<open>The call \<open>sscanf (shell_state.input, "flash %i", &arg)\<close>\<close>

text \<open>
  \<open>sscanf\<close> belongs to the C library. What follows is its behaviour for this one
  format, after ISO C (7.21.6.2): the five letters must match the start of the text,
  the space of the format skips any white space, and \<open>%i\<close> reads an optionally signed
  integer whose base is given by its prefix (\<open>0x\<close> hexadecimal, \<open>0\<close> octal, decimal
  otherwise). A directive fails with an input failure when the text has ended, with a
  matching failure otherwise. \<open>command_flash\<close> looks at nothing but the value returned
  and the value stored in \<open>arg\<close>, and the theorems about it take this pair as their
  hypothesis.
\<close>

datatype 'a scanned = Input_failure | Matching_failure | Matched 'a

definition isspace :: "char \<Rightarrow> bool" where
  "isspace c = (c \<in> set [CHR '' '', CHR 0x09, CHR 0x0A, CHR 0x0B, CHR 0x0C, CHR 0x0D])"

fun match_literal :: "string \<Rightarrow> string \<Rightarrow> string scanned" where
  "match_literal [] s = Matched s"
| "match_literal (c # cs) [] = Input_failure"
| "match_literal (c # cs) (d # ds) = (if c = d then match_literal cs ds else Matching_failure)"

definition digit_of :: "char \<Rightarrow> nat option" where
  "digit_of c =
     (let n = (of_char c :: nat)
      in if 48 \<le> n \<and> n \<le> 57 then Some (n - 48)
         else if 97 \<le> n \<and> n \<le> 102 then Some (n - 87)
         else if 65 \<le> n \<and> n \<le> 70 then Some (n - 55)
         else None)"

definition is_digit :: "nat \<Rightarrow> char \<Rightarrow> bool" where
  "is_digit base c = (case digit_of c of None \<Rightarrow> False | Some d \<Rightarrow> d < base)"

fun digits_value :: "nat \<Rightarrow> nat \<Rightarrow> string \<Rightarrow> nat" where
  "digits_value base acc [] = acc"
| "digits_value base acc (c # cs) =
     digits_value base (acc * base + (case digit_of c of None \<Rightarrow> 0 | Some d \<Rightarrow> d)) cs"

definition scan_sign :: "string \<Rightarrow> bool \<times> string" where
  "scan_sign s =
     (case s of
        [] \<Rightarrow> (False, s)
      | c # cs \<Rightarrow> if c = CHR ''-'' then (True, cs) else if c = CHR ''+'' then (False, cs)
                  else (False, s))"

definition scan_base :: "string \<Rightarrow> nat \<times> string" where
  "scan_base s =
     (case s of
        c # x # cs \<Rightarrow>
          if c = CHR ''0'' \<and> (x = CHR ''x'' \<or> x = CHR ''X'') then (16, cs)
          else if c = CHR ''0'' then (8, s) else (10, s)
      | _ \<Rightarrow> (if s = ''0'' then (8, s) else (10, s)))"

definition INT_MAX :: int where
  "INT_MAX = 2147483647"

definition INT_MIN :: int where
  "INT_MIN = - 2147483648"

text \<open>
  The value goes through \<open>strtol\<close>, which saturates at the ends of the range of
  \<open>long\<close> (here the range of \<open>int\<close>).
\<close>

definition scan_i :: "string \<Rightarrow> cint scanned" where
  "scan_i s0 =
     (let s = dropWhile isspace s0;
          (neg, s1) = scan_sign s;
          (base, s2) = scan_base s1;
          ds = takeWhile (is_digit base) s2;
          v = int (digits_value base 0 ds)
      in if s = [] then Input_failure
         else if ds = [] then Matching_failure
         else Matched (word_of_int (max INT_MIN (min INT_MAX (if neg then - v else v)))))"

definition EOF :: cint where
  "EOF = - 1"

text \<open>The value returned and the new value of \<open>arg\<close> (the old one when nothing is stored).\<close>

definition sscanf_flash :: "string \<Rightarrow> cint \<Rightarrow> cint \<times> cint" where
  "sscanf_flash s arg =
     (case match_literal ''flash'' s of
        Input_failure \<Rightarrow> (EOF, arg)
      | Matching_failure \<Rightarrow> (0, arg)
      | Matched rest \<Rightarrow>
          (case scan_i (dropWhile isspace rest) of
             Input_failure \<Rightarrow> (EOF, arg)
           | Matching_failure \<Rightarrow> (0, arg)
           | Matched v \<Rightarrow> (1, v)))"

subsection \<open>command_flash\<close>

definition max_delay :: cint where
  "max_delay = 10000000"

text \<open>The body of \<open>command_flash\<close>, for a value \<open>D\<close> of its constant \<open>max_delay\<close>.\<close>

definition command_flash_with :: "cint \<Rightarrow> world \<Rightarrow> world" where
  "command_flash_with D w =
     (if flash_state w = 0 then
        (let (rv, a) = sscanf_flash (input_buf (shell_state w)) (flash_arg w)
         in w\<lparr>flash_arg := a, flash_state := (if rv = 1 \<and> 0 <s a then 1 else 6)\<rparr>)
      else if flash_state w = 1 then
        (let w1 = LED 1 w
         in w1\<lparr>flash_delay := D, flash_state := flash_state w1 + 1\<rparr>)
      else if flash_state w = 2 then
        (let d = flash_delay w - 1
         in w\<lparr>flash_delay := d, flash_state := (if 0 <s d then 2 else 3)\<rparr>)
      else if flash_state w = 3 then
        (let w1 = LED 0 w
         in w1\<lparr>flash_delay := D, flash_state := flash_state w1 + 1\<rparr>)
      else if flash_state w = 4 then
        (let d = flash_delay w - 1
         in w\<lparr>flash_delay := d, flash_state := (if 0 <s d then 4 else 5)\<rparr>)
      else if flash_state w = 5 then
        (let a = flash_arg w - 1
         in w\<lparr>flash_arg := a, flash_state := (if a = 0 then 6 else 1)\<rparr>)
      else if flash_state w = 6 then
        RETURN flash_state_update w
      else w)"

definition command_flash :: "world \<Rightarrow> world" where
  "command_flash = command_flash_with max_delay"

subsection \<open>The command blocks\<close>

text \<open>
  Modelled from the spec: shell.h, which declares \<open>t_shell_block_entry\<close> and the
  macros \<open>BLOCK_LEN\<close> and \<open>CMD_BLOCK\<close>, is not among the sources. An entry is the
  TreeEntry of the spec: a label, then one slot that holds either the count of a title
  entry (written \<open>BLOCK_LEN n\<close>) or a pointer to a command function (\<open>0\<close> for
  none), then a pointer to a child block (written \<open>CMD_BLOCK b\<close>, \<open>0\<close> for none).
  The initialisers of shell_pfs.c give the three fields in this order.
\<close>

datatype fp_slot = BLOCK_LEN int | Fp "func option"

datatype block_id = Level_2_block | Level_1_block | Root_block

datatype block_slot = NO_BLOCK | CMD_BLOCK block_id

record t_shell_block_entry =
  label :: string
  fp :: fp_slot
  sub_block :: block_slot

definition level_2_block :: "t_shell_block_entry list" where
  "level_2_block =
     [\<lparr>label = ''Submenu 2'', fp = BLOCK_LEN 2, sub_block = NO_BLOCK\<rparr>,
      \<lparr>label = ''load - performance test'', fp = Fp (Some Command_load), sub_block = NO_BLOCK\<rparr>,
      \<lparr>label = ''load - performance test'', fp = Fp (Some Command_load), sub_block = NO_BLOCK\<rparr>]"

definition level_1_block :: "t_shell_block_entry list" where
  "level_1_block =
     [\<lparr>label = ''Submenu 1'', fp = BLOCK_LEN 3, sub_block = NO_BLOCK\<rparr>,
      \<lparr>label = ''load - performance test'', fp = Fp (Some Command_load), sub_block = NO_BLOCK\<rparr>,
      \<lparr>label = ''load - performance test'', fp = Fp (Some Command_load), sub_block = NO_BLOCK\<rparr>,
      \<lparr>label = ''sm2 - nested submenu example'', fp = Fp None,
        sub_block = CMD_BLOCK Level_2_block\<rparr>]"

definition root_block :: "t_shell_block_entry list" where
  "root_block =
     [\<lparr>label = ''STM32'', fp = BLOCK_LEN 5, sub_block = NO_BLOCK\<rparr>,
      \<lparr>label = ''sm1 - submenu example'', fp = Fp None, sub_block = CMD_BLOCK Level_1_block\<rparr>,
      \<lparr>label = ''led - toggles the blue LED'', fp = Fp (Some Command_led_toggle),
        sub_block = NO_BLOCK\<rparr>,
      \<lparr>label = ''flash N - flash the LED '' @ [CHR 0x27] @ ''N'' @ [CHR 0x27] @ '' times'',
        fp = Fp (Some Command_flash), sub_block = NO_BLOCK\<rparr>,
      \<lparr>label = ''cnt - displays its own call count'', fp = Fp (Some Command_cnt),
        sub_block = NO_BLOCK\<rparr>,
      \<lparr>label = ''load - performance test'', fp = Fp (Some Command_load), sub_block = NO_BLOCK\<rparr>]"

text \<open>The array a block pointer points to.\<close>

fun block_at :: "block_id \<Rightarrow> t_shell_block_entry list" where
  "block_at Level_2_block = level_2_block"
| "block_at Level_1_block = level_1_block"
| "block_at Root_block = root_block"

text \<open>What an entry carries.\<close>

definition is_title :: "t_shell_block_entry \<Rightarrow> bool" where
  "is_title e = (case fp e of BLOCK_LEN n \<Rightarrow> True | Fp f \<Rightarrow> False)"

definition has_command :: "t_shell_block_entry \<Rightarrow> bool" where
  "has_command e = (case fp e of BLOCK_LEN n \<Rightarrow> False | Fp f \<Rightarrow> f \<noteq> None)"

definition has_block :: "t_shell_block_entry \<Rightarrow> bool" where
  "has_block e = (sub_block e \<noteq> NO_BLOCK)"

subsection \<open>Running a command\<close>

text \<open>A command is active while \<open>shell_state.command_fp\<close> is not null.\<close>

definition active :: "world \<Rightarrow> bool" where
  "active w \<longleftrightarrow> command_fp (shell_state w) \<noteq> None"

text \<open>
  \<open>run_to f k w w'\<close>: calling \<open>f\<close> \<open>k\<close> times from \<open>w\<close> ends in \<open>w'\<close>, and the
  command was active before each of these calls.
\<close>

definition run_to :: "(world \<Rightarrow> world) \<Rightarrow> nat \<Rightarrow> world \<Rightarrow> world \<Rightarrow> bool" where
  "run_to f k w w' \<longleftrightarrow> (f ^^ k) w = w' \<and> (\<forall>j<k. active ((f ^^ j) w))"

text \<open>
  \<open>completes_in f k w w'\<close>: the \<open>k\<close>-th call is the first one that signals
  completion, and it leaves \<open>w'\<close>.
\<close>

definition completes_in :: "(world \<Rightarrow> world) \<Rightarrow> nat \<Rightarrow> world \<Rightarrow> world \<Rightarrow> bool" where
  "completes_in f k w w' \<longleftrightarrow> run_to f k w w' \<and> \<not> active w'"

text \<open>
  The number of calls one delay phase of \<open>command_flash\<close> takes when it starts from
  \<open>delay = D\<close> (each call decrements, and the phase ends once the result is not
  positive), and the value of \<open>delay\<close> it leaves.
\<close>

definition delay_ticks :: "cint \<Rightarrow> nat" where
  "delay_ticks D = Suc (nat (sint (D - 1)))"

definition delay_left :: "cint \<Rightarrow> cint" where
  "delay_left D = (if 0 <s D - 1 then 0 else D - 1)"

text \<open>One on/off pair: \<open>LED(1)\<close>, then \<open>LED(0)\<close>.\<close>

definition blink :: "gpio_call list" where
  "blink = [WritePin GPIO_PIN_SET, WritePin GPIO_PIN_RESET]"

text \<open>The world \<open>command_flash\<close> leaves after \<open>n\<close> flashes, started from \<open>w\<close>.\<close>

definition flash_done :: "cint \<Rightarrow> nat \<Rightarrow> world \<Rightarrow> world" where
  "flash_done D n w =
     w\<lparr>led_pin := GPIO_PIN_RESET, gpio_log := gpio_log w @ concat (replicate n blink),
       flash_delay := delay_left D, flash_arg := 0, flash_state := 0,
       shell_fp := Some Shell_state_output,
       shell_state := (shell_state w)\<lparr>command_fp := None\<rparr>\<rparr>"

text \<open>
  The world in which the shell calls a command for the first time after reset: every
  static still has its initial value 0, the line typed is \<open>line\<close>, \<open>command_fp\<close>
  points to the command, the LED is off.
\<close>

definition selected :: "func \<Rightarrow> string \<Rightarrow> world" where
  "selected c line =
     \<lparr>shell_fp = Some (Other_func 0),
      shell_state = \<lparr>input_buf = line, output_buf = [], busy = 0, command_fp = Some c\<rparr>,
      cnt_cnt = 0, cnt_state = 0,
      load_cnt = 0, load_state = 0, load_accu = 0,
      flash_state = 0, flash_arg = 0, flash_delay = 0,
      led_pin = GPIO_PIN_RESET, gpio_log = []\<rparr>"

section \<open>The command blocks: counts and entry kinds\<close>

text \<open>
  C3 (as the code has it): in each of the three blocks the count written in the title
  entry is the number of entries that follow the title, one less than the length of the
  array.
\<close>

theorem block_len_counts_entries_after_title:
  "fp (block_at b ! 0) = BLOCK_LEN (int (length (block_at b)) - 1)"
  by (cases b) (simp_all add: root_block_def level_1_block_def level_2_block_def)

text \<open>
  C3 (as stated) fails on the root block: its title declares 5, the array holds 6
  entries.
\<close>

theorem root_block_len_counterexample:
  "fp (root_block ! 0) = BLOCK_LEN 5 \<and> length root_block = 6
   \<and> fp (root_block ! 0) \<noteq> BLOCK_LEN (int (length root_block))"
  by (simp add: root_block_def)

text \<open>
  C4 (as the code has it): the root block holds 6 entries, a title, a submenu entry and
  4 entries bound to a command; its title declares 5, the number of entries after the
  title. The entry at index 1 carries no command and points to level_1_block, whose title
  declares 3, the number of the entries after it, in an array of 4.
\<close>

theorem root_block_scenario:
  "length root_block = 6
   \<and> is_title (root_block ! 0)
   \<and> length (filter has_command root_block) = 4
   \<and> length (filter has_block root_block) = 1
   \<and> fp (root_block ! 0) = BLOCK_LEN 5
   \<and> fp (root_block ! 1) = Fp None
   \<and> sub_block (root_block ! 1) = CMD_BLOCK Level_1_block
   \<and> fp (block_at Level_1_block ! 0) = BLOCK_LEN 3
   \<and> length (block_at Level_1_block) = 4"
  by (simp add: root_block_def level_1_block_def is_title_def has_command_def has_block_def)

text \<open>
  C4 (as stated) fails: the root block does not hold 5 entries but 6, and the count 3
  of the block under its entry 1 is not the length 4 of that block.
\<close>

theorem root_block_scenario_counterexample:
  "length root_block \<noteq> 5
   \<and> sub_block (root_block ! 1) = CMD_BLOCK Level_1_block
   \<and> fp (level_1_block ! 0) = BLOCK_LEN 3
   \<and> length level_1_block = 4"
  by (simp add: root_block_def level_1_block_def)

text \<open>
  C8: no entry of any block carries both a command function and a child block. The
  first entry of each block is a title and carries neither; every other entry is no
  title and carries exactly one of the two.
\<close>

theorem entry_kinds_exclusive:
  "(\<forall>e \<in> set (block_at b). \<not> (has_command e \<and> has_block e))
   \<and> is_title (block_at b ! 0) \<and> \<not> has_command (block_at b ! 0) \<and> \<not> has_block (block_at b ! 0)
   \<and> (\<forall>e \<in> set (tl (block_at b)). \<not> is_title e \<and> (has_command e \<noteq> has_block e))"
  by (cases b)
     (simp_all add: root_block_def level_1_block_def level_2_block_def
        is_title_def has_command_def has_block_def)

theorem entry_kinds_exclusive_witness:
  "root_block ! 1 \<in> set (block_at Root_block)
   \<and> root_block ! 1 \<in> set (tl (block_at Root_block))
   \<and> \<not> (has_command (root_block ! 1) \<and> has_block (root_block ! 1))
   \<and> \<not> is_title (root_block ! 1)
   \<and> has_command (root_block ! 1) \<noteq> has_block (root_block ! 1)"
proof -
  have m: "root_block ! 1 \<in> set (block_at Root_block)"
    by (simp add: root_block_def)
  have t: "root_block ! 1 \<in> set (tl (block_at Root_block))"
    by (simp add: root_block_def)
  note all = entry_kinds_exclusive [of Root_block]
  from all m have "\<not> (has_command (root_block ! 1) \<and> has_block (root_block ! 1))"
    by blast
  moreover from all t
  have "\<not> is_title (root_block ! 1) \<and> has_command (root_block ! 1) \<noteq> has_block (root_block ! 1)"
    by blast
  ultimately show ?thesis using m t by blast
qed

section \<open>command_led_toggle\<close>

text \<open>
  C9: every call of command_led_toggle makes exactly one HAL call, a toggle of the LED
  pin, sets shell_fp to shell_state_output and clears shell_state.command_fp, whatever
  the world it is called in; it changes nothing else, so it has completed after this one
  call.
\<close>

theorem led_toggle_one_call:
  "command_led_toggle w =
     w\<lparr>led_pin := (if led_pin w = GPIO_PIN_SET then GPIO_PIN_RESET else GPIO_PIN_SET),
       gpio_log := gpio_log w @ [TogglePin],
       shell_fp := Some Shell_state_output,
       shell_state := (shell_state w)\<lparr>command_fp := None\<rparr>\<rparr>
   \<and> led_pin (command_led_toggle w) \<noteq> led_pin w
   \<and> shell_fp (command_led_toggle w) = Some Shell_state_output
   \<and> command_fp (shell_state (command_led_toggle w)) = None
   \<and> \<not> active (command_led_toggle w)"
  by (simp add: command_led_toggle_def HAL_GPIO_TogglePin_def active_def)

section \<open>Running command_flash\<close>

lemma sint_pred: "0 <s (d::cint) \<Longrightarrow> sint (d - 1) = sint d - 1"
proof -
  assume "0 <s d"
  then have p: "0 < sint d" by (simp add: word_sless_alt)
  have u: "sint d < 2 ^ 31" using sint_lt [of d] by simp
  have "sint (d - 1) = signed_take_bit 31 (sint d - 1)"
    by (simp add: sint_word_ariths)
  also have "\<dots> = sint d - 1"
    using p u by (simp add: signed_take_bit_int_eq_self)
  finally show ?thesis .
qed

lemma run_to_refl: "run_to f 0 w w"
  by (simp add: run_to_def)

lemma run_to_step:
  assumes "active w" and "run_to f k (f w) w'"
  shows "run_to f (Suc k) w w'"
proof -
  have "(f ^^ Suc k) w = w'"
    using assms(2) by (simp add: run_to_def funpow_swap1)
  moreover have "active ((f ^^ j) w)" if "j < Suc k" for j
  proof (cases j)
    case 0
    then show ?thesis using assms(1) by simp
  next
    case (Suc i)
    then have "i < k" using that by simp
    then have "active ((f ^^ i) (f w))" using assms(2) by (simp add: run_to_def)
    then show ?thesis using Suc by (simp add: funpow_swap1)
  qed
  ultimately show ?thesis by (simp add: run_to_def)
qed

lemma run_to_one: "active w \<Longrightarrow> run_to f (Suc 0) w (f w)"
  by (rule run_to_step) (simp_all add: run_to_refl)

lemma run_to_trans:
  assumes "run_to f k w w'" and "run_to f m w' w''"
  shows "run_to f (k + m) w w''"
proof -
  have e: "(f ^^ k) w = w'" using assms(1) by (simp add: run_to_def)
  have split: "(f ^^ (k + i)) w = (f ^^ i) w'" for i
  proof -
    have "(f ^^ (i + k)) w = (f ^^ i) ((f ^^ k) w)"
      by (simp only: funpow_add o_apply)
    then show ?thesis by (simp only: e add.commute [of k i])
  qed
  have "(f ^^ (k + m)) w = w''"
    using assms(2) by (simp only: split run_to_def)
  moreover have "active ((f ^^ j) w)" if "j < k + m" for j
  proof (cases "j < k")
    case True
    then show ?thesis using assms(1) by (simp add: run_to_def)
  next
    case False
    then have "k \<le> j" by simp
    then obtain i where j: "j = k + i" by (auto simp add: le_iff_add)
    then have "i < m" using that by simp
    then have "active ((f ^^ i) w')" using assms(2) by (simp add: run_to_def)
    then show ?thesis by (simp only: j split)
  qed
  ultimately show ?thesis by (simp add: run_to_def)
qed

lemma flash_step0:
  "flash_state w = 0 \<Longrightarrow> sscanf_flash (input_buf (shell_state w)) (flash_arg w) = (rv, a) \<Longrightarrow>
   command_flash_with D w = w\<lparr>flash_arg := a, flash_state := (if rv = 1 \<and> 0 <s a then 1 else 6)\<rparr>"
  by (simp add: command_flash_with_def)

lemma flash_step1:
  "flash_state w = 1 \<Longrightarrow>
   command_flash_with D w =
     w\<lparr>led_pin := GPIO_PIN_SET, gpio_log := gpio_log w @ [WritePin GPIO_PIN_SET],
       flash_delay := D, flash_state := 2\<rparr>"
  by (simp add: command_flash_with_def LED_def HAL_GPIO_WritePin_def)

lemma flash_step3:
  "flash_state w = 3 \<Longrightarrow>
   command_flash_with D w =
     w\<lparr>led_pin := GPIO_PIN_RESET, gpio_log := gpio_log w @ [WritePin GPIO_PIN_RESET],
       flash_delay := D, flash_state := 4\<rparr>"
  by (simp add: command_flash_with_def LED_def HAL_GPIO_WritePin_def)

lemma flash_step2:
  "flash_state w = 2 \<Longrightarrow>
   command_flash_with D w =
     w\<lparr>flash_delay := flash_delay w - 1,
       flash_state := (if 0 <s flash_delay w - 1 then 2 else 3)\<rparr>"
  by (simp add: command_flash_with_def Let_def)

lemma flash_step4:
  "flash_state w = 4 \<Longrightarrow>
   command_flash_with D w =
     w\<lparr>flash_delay := flash_delay w - 1,
       flash_state := (if 0 <s flash_delay w - 1 then 4 else 5)\<rparr>"
  by (simp add: command_flash_with_def Let_def)

lemma flash_step_wait:
  assumes "flash_state w = 2 \<or> flash_state w = 4"
  shows "command_flash_with D w =
     w\<lparr>flash_delay := flash_delay w - 1,
       flash_state := (if 0 <s flash_delay w - 1 then flash_state w else flash_state w + 1)\<rparr>"
proof (cases "flash_state w = 2")
  case True
  then show ?thesis by (simp add: flash_step2)
next
  case False
  then have "flash_state w = 4" using assms by simp
  then show ?thesis by (simp add: flash_step4)
qed

lemma flash_step5:
  "flash_state w = 5 \<Longrightarrow>
   command_flash_with D w =
     w\<lparr>flash_arg := flash_arg w - 1, flash_state := (if flash_arg w - 1 = 0 then 6 else 1)\<rparr>"
  by (simp add: command_flash_with_def Let_def)

lemma flash_step6:
  "flash_state w = 6 \<Longrightarrow>
   command_flash_with D w =
     w\<lparr>flash_state := 0, shell_fp := Some Shell_state_output,
       shell_state := (shell_state w)\<lparr>command_fp := None\<rparr>\<rparr>"
  by (simp add: command_flash_with_def RETURN_def DONE_def)


lemma flash_wait_count:
  "flash_state w = 2 \<or> flash_state w = 4 \<Longrightarrow> active w \<Longrightarrow> sint (flash_delay w - 1) = int n \<Longrightarrow>
   run_to (command_flash_with D) (Suc n) w (w\<lparr>flash_delay := 0, flash_state := flash_state w + 1\<rparr>)"
proof (induction n arbitrary: w)
  case 0
  then have z: "flash_delay w - 1 = 0" by (simp add: signed_eq_0_iff)
  have "command_flash_with D w = w\<lparr>flash_delay := 0, flash_state := flash_state w + 1\<rparr>"
    by (simp only: flash_step_wait [OF 0(1)] z) simp
  then show ?case using run_to_one [OF 0(2), of "command_flash_with D"] by simp
next
  case (Suc n)
  let ?w = "w\<lparr>flash_delay := flash_delay w - 1\<rparr>"
  have pos: "0 <s flash_delay w - 1" using Suc.prems(3) by (simp add: word_sless_alt)
  have st: "command_flash_with D w = ?w"
    by (simp only: flash_step_wait [OF Suc.prems(1)] pos if_True) simp
  have "sint (flash_delay ?w - 1) = int n"
    using sint_pred [OF pos] Suc.prems(3) by simp
  moreover have "flash_state ?w = 2 \<or> flash_state ?w = 4" using Suc.prems(1) by simp
  moreover have "active ?w" using Suc.prems(2) by (simp add: active_def)
  ultimately have "run_to (command_flash_with D) (Suc n) ?w
               (?w\<lparr>flash_delay := 0, flash_state := flash_state ?w + 1\<rparr>)"
    by (intro Suc.IH)
  then have "run_to (command_flash_with D) (Suc n) (command_flash_with D w)
               (w\<lparr>flash_delay := 0, flash_state := flash_state w + 1\<rparr>)"
    by (simp add: st)
  then show ?case by (rule run_to_step [OF Suc.prems(2)])
qed

lemma flash_wait:
  assumes "flash_state w = 2 \<or> flash_state w = 4" and "active w"
  shows "run_to (command_flash_with D) (delay_ticks (flash_delay w)) w
           (w\<lparr>flash_delay := delay_left (flash_delay w), flash_state := flash_state w + 1\<rparr>)"
proof (cases "sint (flash_delay w - 1) < 0")
  case True
  then have n: "\<not> 0 <s flash_delay w - 1" by (simp add: word_sless_alt)
  have "command_flash_with D w =
          w\<lparr>flash_delay := flash_delay w - 1, flash_state := flash_state w + 1\<rparr>"
    by (simp only: flash_step_wait [OF assms(1)] n if_False)
  moreover have "delay_ticks (flash_delay w) = Suc 0"
    using True by (simp add: delay_ticks_def)
  moreover have "delay_left (flash_delay w) = flash_delay w - 1"
    using n by (simp add: delay_left_def)
  ultimately show ?thesis
    using run_to_one [OF assms(2), of "command_flash_with D"] by simp
next
  case False
  then obtain n where n: "sint (flash_delay w - 1) = int n"
    using nonneg_int_cases [of "sint (flash_delay w - 1)"] by auto
  have "delay_left (flash_delay w) = 0"
    using n by (auto simp add: delay_left_def word_sless_alt signed_eq_0_iff)
  moreover have "delay_ticks (flash_delay w) = Suc n"
    using n by (simp add: delay_ticks_def)
  ultimately show ?thesis
    using flash_wait_count [OF assms n, of D] by simp
qed

lemma flash_blink:
  assumes "flash_state w = 1" and "active w"
  shows "run_to (command_flash_with D) (3 + 2 * delay_ticks D) w
           (w\<lparr>led_pin := GPIO_PIN_RESET, gpio_log := gpio_log w @ blink,
              flash_delay := delay_left D, flash_arg := flash_arg w - 1,
              flash_state := (if flash_arg w - 1 = 0 then 6 else 1)\<rparr>)"
proof -
  let ?f = "command_flash_with D"
  let ?w2 = "w\<lparr>led_pin := GPIO_PIN_SET, gpio_log := gpio_log w @ [WritePin GPIO_PIN_SET],
               flash_delay := D, flash_state := 2\<rparr>"
  let ?w3 = "?w2\<lparr>flash_delay := delay_left D, flash_state := 3\<rparr>"
  let ?w4 = "?w3\<lparr>led_pin := GPIO_PIN_RESET,
               gpio_log := gpio_log ?w3 @ [WritePin GPIO_PIN_RESET],
               flash_delay := D, flash_state := 4\<rparr>"
  let ?w5 = "?w4\<lparr>flash_delay := delay_left D, flash_state := 5\<rparr>"
  let ?w6 = "?w5\<lparr>flash_arg := flash_arg w - 1,
               flash_state := (if flash_arg w - 1 = 0 then 6 else 1)\<rparr>"
  have a: "run_to ?f (Suc 0) w ?w2"
    using run_to_one [OF assms(2), of ?f] by (simp add: flash_step1 assms(1))
  have b: "run_to ?f (delay_ticks D) ?w2 ?w3"
    using flash_wait [of ?w2 D] assms(2) by (simp add: active_def)
  have c: "run_to ?f (Suc 0) ?w3 ?w4"
    using run_to_one [of ?w3 ?f] assms(2) by (simp add: flash_step3 active_def)
  have d: "run_to ?f (delay_ticks D) ?w4 ?w5"
    using flash_wait [of ?w4 D] assms(2) by (simp add: active_def)
  have e: "run_to ?f (Suc 0) ?w5 ?w6"
    using run_to_one [of ?w5 ?f] assms(2) by (simp add: flash_step5 active_def)
  have "run_to ?f (Suc 0 + delay_ticks D + Suc 0 + delay_ticks D + Suc 0) w ?w6"
    by (rule run_to_trans [OF run_to_trans [OF run_to_trans [OF run_to_trans [OF a b] c] d] e])
  moreover have "Suc 0 + delay_ticks D + Suc 0 + delay_ticks D + Suc 0 = 3 + 2 * delay_ticks D"
    by simp
  moreover have "?w6 = w\<lparr>led_pin := GPIO_PIN_RESET, gpio_log := gpio_log w @ blink,
              flash_delay := delay_left D, flash_arg := flash_arg w - 1,
              flash_state := (if flash_arg w - 1 = 0 then 6 else 1)\<rparr>"
    by (simp add: blink_def)
  ultimately show ?thesis by (simp only:)
qed

text \<open>The loop over states 1 to 5, entered with a positive \<open>arg\<close>.\<close>

lemma flash_loop:
  "flash_state w = 1 \<Longrightarrow> active w \<Longrightarrow> sint (flash_arg w) = int (Suc n) \<Longrightarrow>
   run_to (command_flash_with D) (Suc n * (3 + 2 * delay_ticks D)) w
     (w\<lparr>led_pin := GPIO_PIN_RESET,
        gpio_log := gpio_log w @ concat (replicate (Suc n) blink),
        flash_delay := delay_left D, flash_arg := 0, flash_state := 6\<rparr>)"
proof (induction n arbitrary: w)
  case 0
  have pos: "0 <s flash_arg w" using 0(3) by (simp add: word_sless_alt)
  have "sint (flash_arg w - 1) = 0" using sint_pred [OF pos] 0(3) by simp
  then have z: "flash_arg w - 1 = 0" by (simp add: signed_eq_0_iff)
  show ?case using flash_blink [OF 0(1,2), of D] z by simp
next
  case (Suc n)
  let ?f = "command_flash_with D"
  let ?w = "w\<lparr>led_pin := GPIO_PIN_RESET, gpio_log := gpio_log w @ blink,
              flash_delay := delay_left D, flash_arg := flash_arg w - 1, flash_state := 1\<rparr>"
  have pos: "0 <s flash_arg w" using Suc.prems(3) by (simp add: word_sless_alt)
  have s: "sint (flash_arg w - 1) = int (Suc n)"
    using sint_pred [OF pos] Suc.prems(3) by simp
  then have nz: "flash_arg w - 1 \<noteq> 0" by auto
  have first: "run_to ?f (3 + 2 * delay_ticks D) w ?w"
    using flash_blink [OF Suc.prems(1,2), of D] nz by simp
  have "run_to ?f (Suc n * (3 + 2 * delay_ticks D)) ?w
          (?w\<lparr>led_pin := GPIO_PIN_RESET,
              gpio_log := gpio_log ?w @ concat (replicate (Suc n) blink),
              flash_delay := delay_left D, flash_arg := 0, flash_state := 6\<rparr>)"
    using Suc.prems(2) s by (intro Suc.IH) (simp_all add: active_def)
  then have rest: "run_to ?f (Suc n * (3 + 2 * delay_ticks D)) ?w
          (w\<lparr>led_pin := GPIO_PIN_RESET,
              gpio_log := gpio_log w @ concat (replicate (Suc (Suc n)) blink),
              flash_delay := delay_left D, flash_arg := 0, flash_state := 6\<rparr>)"
    by simp
  have "run_to ?f ((3 + 2 * delay_ticks D) + Suc n * (3 + 2 * delay_ticks D)) w
          (w\<lparr>led_pin := GPIO_PIN_RESET,
              gpio_log := gpio_log w @ concat (replicate (Suc (Suc n)) blink),
              flash_delay := delay_left D, flash_arg := 0, flash_state := 6\<rparr>)"
    by (rule run_to_trans [OF first rest])
  then show ?case by simp
qed

lemma run_to_last: "run_to f k w w' \<Longrightarrow> active w' \<Longrightarrow> run_to f (Suc k) w (f w')"
  using run_to_trans [of f k w w' "Suc 0" "f w'"] run_to_one [of w' f] by simp

text \<open>
  From state 0 with an accepted argument: state 6 is reached with every LED call made,
  and the next call is the one that completes.
\<close>

lemma flash_run_exit:
  assumes "flash_state w = 0" and "active w"
    and "sscanf_flash (input_buf (shell_state w)) (flash_arg w) = (1, a)"
    and "sint a = int (Suc n)"
  shows "run_to (command_flash_with D) (1 + Suc n * (3 + 2 * delay_ticks D)) w
           ((flash_done D (Suc n) w)
              \<lparr>flash_state := 6, shell_fp := shell_fp w, shell_state := shell_state w\<rparr>)"
proof -
  let ?f = "command_flash_with D"
  let ?w1 = "w\<lparr>flash_arg := a, flash_state := 1\<rparr>"
  let ?w6 = "?w1\<lparr>led_pin := GPIO_PIN_RESET,
        gpio_log := gpio_log ?w1 @ concat (replicate (Suc n) blink),
        flash_delay := delay_left D, flash_arg := 0, flash_state := 6\<rparr>"
  have pos: "0 <s a" using assms(4) by (simp add: word_sless_alt)
  have "?f w = ?w1" using flash_step0 [OF assms(1,3), of D] pos by simp
  then have a: "run_to ?f (Suc 0) w ?w1" using run_to_one [OF assms(2), of ?f] by simp
  have b: "run_to ?f (Suc n * (3 + 2 * delay_ticks D)) ?w1 ?w6"
    using assms(2,4) by (intro flash_loop) (simp_all add: active_def)
  have "run_to ?f (Suc 0 + Suc n * (3 + 2 * delay_ticks D)) w ?w6"
    by (rule run_to_trans [OF a b])
  moreover have "?w6 = (flash_done D (Suc n) w)
              \<lparr>flash_state := 6, shell_fp := shell_fp w, shell_state := shell_state w\<rparr>"
    by (simp add: flash_done_def)
  ultimately show ?thesis by simp
qed

lemma flash_run:
  assumes "flash_state w = 0" and "active w"
    and "sscanf_flash (input_buf (shell_state w)) (flash_arg w) = (1, a)"
    and "sint a = int (Suc n)"
  shows "completes_in (command_flash_with D) (2 + Suc n * (3 + 2 * delay_ticks D)) w
           (flash_done D (Suc n) w)"
proof -
  let ?f = "command_flash_with D"
  let ?w6 = "(flash_done D (Suc n) w)
              \<lparr>flash_state := 6, shell_fp := shell_fp w, shell_state := shell_state w\<rparr>"
  have "run_to ?f (Suc (1 + Suc n * (3 + 2 * delay_ticks D))) w (?f ?w6)"
    using assms(2) by (intro run_to_last flash_run_exit [OF assms]) (simp add: active_def)
  moreover have "?f ?w6 = flash_done D (Suc n) w"
    by (simp add: flash_step6 flash_done_def)
  moreover have "\<not> active (flash_done D (Suc n) w)"
    by (simp add: active_def flash_done_def)
  ultimately show ?thesis by (simp add: completes_in_def)
qed

lemma delay_ticks_pos: "0 <s D \<Longrightarrow> delay_ticks D = nat (sint D)"
proof -
  assume pos: "0 <s D"
  then have "0 < sint D" by (simp add: word_sless_alt)
  then show ?thesis using sint_pred [OF pos] by (simp add: delay_ticks_def)
qed

text \<open>A rejected argument: state 6 after one call, completion after two, no HAL call.\<close>

lemma flash_reject:
  assumes "flash_state w = 0" and "active w"
    and "sscanf_flash (input_buf (shell_state w)) (flash_arg w) = (rv, a)"
    and "\<not> (rv = 1 \<and> 0 <s a)"
  shows "command_flash_with D w = w\<lparr>flash_arg := a, flash_state := 6\<rparr>"
    and "completes_in (command_flash_with D) 2 w
           (w\<lparr>flash_arg := a, flash_state := 0, shell_fp := Some Shell_state_output,
              shell_state := (shell_state w)\<lparr>command_fp := None\<rparr>\<rparr>)"
proof -
  let ?f = "command_flash_with D"
  let ?w6 = "w\<lparr>flash_arg := a, flash_state := 6\<rparr>"
  show one: "?f w = ?w6"
    using flash_step0 [OF assms(1,3), of D] assms(4) by auto
  have "run_to ?f (Suc 0) w ?w6"
    using run_to_one [OF assms(2), of ?f] one by simp
  then have "run_to ?f (Suc (Suc 0)) w (?f ?w6)"
    using assms(2) by (intro run_to_last) (simp_all add: active_def)
  moreover have "?f ?w6 = w\<lparr>flash_arg := a, flash_state := 0, shell_fp := Some Shell_state_output,
              shell_state := (shell_state w)\<lparr>command_fp := None\<rparr>\<rparr>"
    by (simp add: flash_step6)
  ultimately show "completes_in ?f 2 w
           (w\<lparr>flash_arg := a, flash_state := 0, shell_fp := Some Shell_state_output,
              shell_state := (shell_state w)\<lparr>command_fp := None\<rparr>\<rparr>)"
    by (simp add: completes_in_def active_def numeral_2_eq_2)
qed

text \<open>The call that completes is determined: a run cannot complete at two different calls.\<close>

lemma completes_in_unique:
  assumes "completes_in f k w w'" and "completes_in f k' w w''"
  shows "k = k'"
proof (rule ccontr)
  assume "k \<noteq> k'"
  then consider "k < k'" | "k' < k" by linarith
  then show False
  proof cases
    case 1
    then have "active ((f ^^ k) w)" using assms(2) by (simp add: completes_in_def run_to_def)
    then show False using assms(1) by (simp add: completes_in_def run_to_def)
  next
    case 2
    then have "active ((f ^^ k') w)" using assms(1) by (simp add: completes_in_def run_to_def)
    then show False using assms(2) by (simp add: completes_in_def run_to_def)
  qed
qed

lemma sscanf_flash_3: "sscanf_flash ''flash 3'' x = (1, 3)"
  by (simp add: sscanf_flash_def scan_i_def isspace_def scan_sign_def scan_base_def
        is_digit_def digit_of_def INT_MAX_def INT_MIN_def)

section \<open>command_flash: calls until completion, LED calls, rejected arguments\<close>

text \<open>
  C1 (as the code has it): let the text parse as "flash N" with N positive, and let the
  delay constant D be positive. Started in state 0, command_flash completes at call
  number N * 2 * D + 3 * N + 2 exactly: it is active before each of these calls, and
  this call clears command_fp and resets the state to 0. Beyond N * 2 * D the count
  holds 3 calls for each flash (states 1, 3 and 5) and 2 for states 0 and 6.
\<close>

theorem flash_call_count:
  assumes "flash_state w = 0" and "active w"
    and "sscanf_flash (input_buf (shell_state w)) (flash_arg w) = (1, a)"
    and "0 <s a" and "0 <s D"
  shows "completes_in (command_flash_with D)
           (nat (sint a) * 2 * nat (sint D) + 3 * nat (sint a) + 2) w
           (flash_done D (nat (sint a)) w)
         \<and> command_fp (shell_state (flash_done D (nat (sint a)) w)) = None
         \<and> flash_state (flash_done D (nat (sint a)) w) = 0"
proof -
  have "0 < sint a" using assms(4) by (simp add: word_sless_alt)
  then obtain n where n: "sint a = int (Suc n)"
    using zero_less_imp_eq_int [of "sint a"] by (auto dest: gr0_implies_Suc)
  have "completes_in (command_flash_with D) (2 + Suc n * (3 + 2 * delay_ticks D)) w
          (flash_done D (Suc n) w)"
    by (rule flash_run [OF assms(1,2,3) n])
  moreover have "2 + Suc n * (3 + 2 * delay_ticks D)
                   = Suc n * 2 * nat (sint D) + 3 * Suc n + 2"
    by (simp add: delay_ticks_pos [OF assms(5)] algebra_simps)
  moreover have "nat (sint a) = Suc n" using n by simp
  ultimately show ?thesis by (simp add: flash_done_def)
qed

theorem flash_call_count_witness:
  "flash_state (selected Command_flash ''flash 2'') = 0
   \<and> active (selected Command_flash ''flash 2'')
   \<and> sscanf_flash ''flash 2'' 0 = (1, 2)
   \<and> 0 <s (2 :: cint) \<and> 0 <s max_delay
   \<and> completes_in command_flash 40000008 (selected Command_flash ''flash 2'')
        (flash_done max_delay 2 (selected Command_flash ''flash 2''))"
proof -
  have p: "sscanf_flash ''flash 2'' 0 = (1, 2)"
    by (simp add: sscanf_flash_def scan_i_def isspace_def scan_sign_def scan_base_def
          is_digit_def digit_of_def INT_MAX_def INT_MIN_def)
  have a: "0 <s (2 :: cint)" by (simp add: word_sless_alt)
  have d: "0 <s max_delay" by (simp add: max_delay_def word_sless_alt)
  have s: "flash_state (selected Command_flash ''flash 2'') = 0"
    by (simp add: selected_def)
  have act: "active (selected Command_flash ''flash 2'')"
    by (simp add: selected_def active_def)
  have i: "sscanf_flash (input_buf (shell_state (selected Command_flash ''flash 2'')))
             (flash_arg (selected Command_flash ''flash 2'')) = (1, 2)"
    using p by (simp add: selected_def)
  have "nat (sint (2 :: cint)) * 2 * nat (sint max_delay) + 3 * nat (sint (2 :: cint)) + 2
          = 40000008"
    by (simp add: max_delay_def)
  then show ?thesis
    using flash_call_count [OF s act i a d] p a d s act
    by (simp add: command_flash_def)
qed

text \<open>
  C1 (as stated) fails: what the count holds beyond N * 2 * D is not a constant. With
  the compiled-in delay, "flash 1" completes at call 20000005 and "flash 2" at call
  40000008, which leaves 5 in one case and 8 in the other.
\<close>

theorem flash_call_count_counterexample:
  "completes_in command_flash 20000005 (selected Command_flash ''flash 1'')
     (flash_done max_delay 1 (selected Command_flash ''flash 1''))
   \<and> completes_in command_flash 40000008 (selected Command_flash ''flash 2'')
     (flash_done max_delay 2 (selected Command_flash ''flash 2''))
   \<and> 20000005 - 1 * 2 * unat max_delay = 5
   \<and> 40000008 - 2 * 2 * unat max_delay = 8"
proof -
  have t: "delay_ticks max_delay = 10000000"
    by (simp add: delay_ticks_def max_delay_def)
  have p1: "sscanf_flash (input_buf (shell_state (selected Command_flash ''flash 1'')))
              (flash_arg (selected Command_flash ''flash 1'')) = (1, 1)"
    by (simp add: selected_def sscanf_flash_def scan_i_def isspace_def scan_sign_def
          scan_base_def is_digit_def digit_of_def INT_MAX_def INT_MIN_def)
  have p2: "sscanf_flash (input_buf (shell_state (selected Command_flash ''flash 2'')))
              (flash_arg (selected Command_flash ''flash 2'')) = (1, 2)"
    by (simp add: selected_def sscanf_flash_def scan_i_def isspace_def scan_sign_def
          scan_base_def is_digit_def digit_of_def INT_MAX_def INT_MIN_def)
  have r1: "completes_in (command_flash_with max_delay) (2 + Suc 0 * (3 + 2 * delay_ticks max_delay))
              (selected Command_flash ''flash 1'')
              (flash_done max_delay (Suc 0) (selected Command_flash ''flash 1''))"
    by (rule flash_run [OF _ _ p1]) (simp_all add: selected_def active_def)
  have r2: "completes_in (command_flash_with max_delay) (2 + Suc 1 * (3 + 2 * delay_ticks max_delay))
              (selected Command_flash ''flash 2'')
              (flash_done max_delay (Suc 1) (selected Command_flash ''flash 2''))"
    by (rule flash_run [OF _ _ p2]) (simp_all add: selected_def active_def)
  have u: "unat max_delay = 10000000" by (simp add: max_delay_def)
  show ?thesis using r1 r2 by (simp add: t u command_flash_def numeral_2_eq_2)
qed

text \<open>
  C2: started in state 0 on the text "flash 3", command_flash makes exactly six HAL
  calls on the LED pin until it completes: on, off, on, off, on, off. All six are made
  before the completing call, and this holds for every value D of the delay constant
  (only the number of calls of command_flash depends on D).
\<close>

theorem flash_3_blinks_three_times:
  assumes "flash_state w = 0" and "active w"
    and "input_buf (shell_state w) = ''flash 3''"
  shows "completes_in (command_flash_with D) (2 + 3 * (3 + 2 * delay_ticks D)) w
           (flash_done D 3 w)
         \<and> gpio_log (flash_done D 3 w) =
             gpio_log w @ [WritePin GPIO_PIN_SET, WritePin GPIO_PIN_RESET,
                           WritePin GPIO_PIN_SET, WritePin GPIO_PIN_RESET,
                           WritePin GPIO_PIN_SET, WritePin GPIO_PIN_RESET]
         \<and> gpio_log ((command_flash_with D ^^ (1 + 3 * (3 + 2 * delay_ticks D))) w) =
             gpio_log (flash_done D 3 w)"
proof -
  have p: "sscanf_flash (input_buf (shell_state w)) (flash_arg w) = (1, 3)"
    by (simp only: assms(3) sscanf_flash_3)
  have n: "sint (3 :: cint) = int (Suc 2)" by simp
  have three: "Suc 2 = 3" by simp
  have "completes_in (command_flash_with D) (2 + Suc 2 * (3 + 2 * delay_ticks D)) w
          (flash_done D (Suc 2) w)"
    by (rule flash_run [OF assms(1,2) p n])
  then have c: "completes_in (command_flash_with D) (2 + 3 * (3 + 2 * delay_ticks D)) w
          (flash_done D 3 w)"
    by (simp only: three)
  have "run_to (command_flash_with D) (1 + Suc 2 * (3 + 2 * delay_ticks D)) w
          ((flash_done D (Suc 2) w)
             \<lparr>flash_state := 6, shell_fp := shell_fp w, shell_state := shell_state w\<rparr>)"
    by (rule flash_run_exit [OF assms(1,2) p n])
  then have "(command_flash_with D ^^ (1 + 3 * (3 + 2 * delay_ticks D))) w =
          (flash_done D 3 w)
             \<lparr>flash_state := 6, shell_fp := shell_fp w, shell_state := shell_state w\<rparr>"
    by (simp only: three run_to_def)
  then have before: "gpio_log ((command_flash_with D ^^ (1 + 3 * (3 + 2 * delay_ticks D))) w) =
          gpio_log (flash_done D 3 w)"
    by simp
  have log: "gpio_log (flash_done D 3 w) =
             gpio_log w @ [WritePin GPIO_PIN_SET, WritePin GPIO_PIN_RESET,
                           WritePin GPIO_PIN_SET, WritePin GPIO_PIN_RESET,
                           WritePin GPIO_PIN_SET, WritePin GPIO_PIN_RESET]"
    by (simp add: flash_done_def blink_def numeral_3_eq_3)
  show ?thesis using c log before by blast
qed

theorem flash_3_blinks_three_times_witness:
  "flash_state (selected Command_flash ''flash 3'') = 0
   \<and> active (selected Command_flash ''flash 3'')
   \<and> input_buf (shell_state (selected Command_flash ''flash 3'')) = ''flash 3''
   \<and> completes_in command_flash 60000011 (selected Command_flash ''flash 3'')
        (flash_done max_delay 3 (selected Command_flash ''flash 3''))
   \<and> gpio_log (flash_done max_delay 3 (selected Command_flash ''flash 3'')) =
        [WritePin GPIO_PIN_SET, WritePin GPIO_PIN_RESET,
         WritePin GPIO_PIN_SET, WritePin GPIO_PIN_RESET,
         WritePin GPIO_PIN_SET, WritePin GPIO_PIN_RESET]"
proof -
  have s: "flash_state (selected Command_flash ''flash 3'') = 0"
    by (simp add: selected_def)
  have act: "active (selected Command_flash ''flash 3'')"
    by (simp add: selected_def active_def)
  have i: "input_buf (shell_state (selected Command_flash ''flash 3'')) = ''flash 3''"
    by (simp add: selected_def)
  have t: "2 + 3 * (3 + 2 * delay_ticks max_delay) = 60000011"
    by (simp add: delay_ticks_def max_delay_def)
  have e: "gpio_log (selected Command_flash ''flash 3'') = []"
    by (simp add: selected_def)
  show ?thesis
    using flash_3_blinks_three_times [OF s act i, of max_delay] s act i
    by (simp only: t e command_flash_def append_Nil)
qed

text \<open>
  C5: when the call of sscanf does not return 1, or stores an argument that is not
  positive, the first call of command_flash goes from state 0 to state 6 and the second
  call completes: it clears command_fp, sets shell_fp to shell_state_output and resets
  the state to 0. Neither call touches the LED pin. Nothing but this branch is taken:
  command_flash has no error exit.
\<close>

theorem flash_parse_failure:
  assumes "flash_state w = 0" and "active w"
    and "sscanf_flash (input_buf (shell_state w)) (flash_arg w) = (rv, a)"
    and "\<not> (rv = 1 \<and> 0 <s a)"
  shows "flash_state (command_flash w) = 6
         \<and> completes_in command_flash 2 w
             (w\<lparr>flash_arg := a, flash_state := 0, shell_fp := Some Shell_state_output,
                shell_state := (shell_state w)\<lparr>command_fp := None\<rparr>\<rparr>)
         \<and> gpio_log (command_flash w) = gpio_log w
         \<and> led_pin (command_flash w) = led_pin w
         \<and> gpio_log (command_flash (command_flash w)) = gpio_log w
         \<and> led_pin (command_flash (command_flash w)) = led_pin w"
proof -
  note one = flash_reject(1) [OF assms, of max_delay]
  note two = flash_reject(2) [OF assms, of max_delay]
  have "(command_flash_with max_delay ^^ 2) w =
          w\<lparr>flash_arg := a, flash_state := 0, shell_fp := Some Shell_state_output,
            shell_state := (shell_state w)\<lparr>command_fp := None\<rparr>\<rparr>"
    using two by (simp add: completes_in_def run_to_def)
  then have "command_flash_with max_delay (command_flash_with max_delay w) =
          w\<lparr>flash_arg := a, flash_state := 0, shell_fp := Some Shell_state_output,
            shell_state := (shell_state w)\<lparr>command_fp := None\<rparr>\<rparr>"
    by (simp add: numeral_2_eq_2)
  then show ?thesis using one two by (simp add: command_flash_def)
qed

theorem flash_parse_failure_witness:
  "flash_state (selected Command_flash ''flash abc'') = 0
   \<and> active (selected Command_flash ''flash abc'')
   \<and> sscanf_flash ''flash abc'' 0 = (0, 0)
   \<and> flash_state (command_flash (selected Command_flash ''flash abc'')) = 6
   \<and> completes_in command_flash 2 (selected Command_flash ''flash abc'')
        ((selected Command_flash ''flash abc'')
           \<lparr>flash_arg := 0, flash_state := 0, shell_fp := Some Shell_state_output,
             shell_state := (shell_state (selected Command_flash ''flash abc''))
               \<lparr>command_fp := None\<rparr>\<rparr>)
   \<and> gpio_log (command_flash (command_flash (selected Command_flash ''flash abc''))) = []"
proof -
  have p: "sscanf_flash ''flash abc'' 0 = (0, 0)"
    by (simp add: sscanf_flash_def scan_i_def isspace_def scan_sign_def scan_base_def
          is_digit_def digit_of_def INT_MAX_def INT_MIN_def)
  have s: "flash_state (selected Command_flash ''flash abc'') = 0"
    by (simp add: selected_def)
  have act: "active (selected Command_flash ''flash abc'')"
    by (simp add: selected_def active_def)
  have i: "sscanf_flash (input_buf (shell_state (selected Command_flash ''flash abc'')))
             (flash_arg (selected Command_flash ''flash abc'')) = (0, 0)"
    using p by (simp add: selected_def)
  have r: "\<not> ((0 :: cint) = 1 \<and> 0 <s (0 :: cint))" by simp
  have e: "gpio_log (selected Command_flash ''flash abc'') = []"
    by (simp add: selected_def)
  show ?thesis
    using flash_parse_failure [OF s act i r] p s act e by simp
qed

text \<open>
  C10: when sscanf stores a negative argument, command_flash does what it does on a
  parse failure: the first call goes from state 0 to state 6 (the guard asks for an
  argument greater than 0), the second call completes, and the LED pin is never
  touched.
\<close>

theorem flash_negative_argument:
  assumes "flash_state w = 0" and "active w"
    and "sscanf_flash (input_buf (shell_state w)) (flash_arg w) = (1, a)"
    and "a <s 0"
  shows "flash_state (command_flash w) = 6
         \<and> completes_in command_flash 2 w
             (w\<lparr>flash_arg := a, flash_state := 0, shell_fp := Some Shell_state_output,
                shell_state := (shell_state w)\<lparr>command_fp := None\<rparr>\<rparr>)
         \<and> gpio_log (command_flash w) = gpio_log w
         \<and> led_pin (command_flash w) = led_pin w
         \<and> gpio_log (command_flash (command_flash w)) = gpio_log w
         \<and> led_pin (command_flash (command_flash w)) = led_pin w"
proof -
  have neg: "\<not> (1 = (1 :: cint) \<and> 0 <s a)"
    using assms(4) by (simp add: word_sless_alt)
  note one = flash_reject(1) [OF assms(1,2,3) neg, of max_delay]
  note two = flash_reject(2) [OF assms(1,2,3) neg, of max_delay]
  have "(command_flash_with max_delay ^^ 2) w =
          w\<lparr>flash_arg := a, flash_state := 0, shell_fp := Some Shell_state_output,
            shell_state := (shell_state w)\<lparr>command_fp := None\<rparr>\<rparr>"
    using two by (simp add: completes_in_def run_to_def)
  then have "command_flash_with max_delay (command_flash_with max_delay w) =
          w\<lparr>flash_arg := a, flash_state := 0, shell_fp := Some Shell_state_output,
            shell_state := (shell_state w)\<lparr>command_fp := None\<rparr>\<rparr>"
    by (simp add: numeral_2_eq_2)
  then show ?thesis using one two by (simp add: command_flash_def)
qed

theorem flash_negative_argument_witness:
  "flash_state (selected Command_flash ''flash -3'') = 0
   \<and> active (selected Command_flash ''flash -3'')
   \<and> sscanf_flash ''flash -3'' 0 = (1, - 3)
   \<and> (- 3 :: cint) <s 0
   \<and> flash_state (command_flash (selected Command_flash ''flash -3'')) = 6
   \<and> completes_in command_flash 2 (selected Command_flash ''flash -3'')
        ((selected Command_flash ''flash -3'')
           \<lparr>flash_arg := - 3, flash_state := 0, shell_fp := Some Shell_state_output,
             shell_state := (shell_state (selected Command_flash ''flash -3''))
               \<lparr>command_fp := None\<rparr>\<rparr>)
   \<and> gpio_log (command_flash (command_flash (selected Command_flash ''flash -3''))) = []"
proof -
  have p: "sscanf_flash ''flash -3'' 0 = (1, - 3)"
    by (simp add: sscanf_flash_def scan_i_def isspace_def scan_sign_def scan_base_def
          is_digit_def digit_of_def INT_MAX_def INT_MIN_def)
  have s: "flash_state (selected Command_flash ''flash -3'') = 0"
    by (simp add: selected_def)
  have act: "active (selected Command_flash ''flash -3'')"
    by (simp add: selected_def active_def)
  have i: "sscanf_flash (input_buf (shell_state (selected Command_flash ''flash -3'')))
             (flash_arg (selected Command_flash ''flash -3'')) = (1, - 3)"
    using p by (simp add: selected_def)
  have r: "(- 3 :: cint) <s 0" by (simp add: word_sless_alt)
  have e: "gpio_log (selected Command_flash ''flash -3'') = []"
    by (simp add: selected_def)
  show ?thesis
    using flash_negative_argument [OF s act i r] p s act r e by simp
qed

section \<open>command_cnt: two runs\<close>

lemma sint_succ: "sint (c :: cint) < 2147483647 \<Longrightarrow> sint (c + 1) = sint c + 1"
proof -
  assume u: "sint c < 2147483647"
  have l: "- (2 ^ 31) \<le> sint c" using sint_ge [of c] by simp
  have "sint (c + 1) = signed_take_bit 31 (sint c + 1)"
    by (simp add: sint_word_ariths)
  also have "\<dots> = sint c + 1"
    using l u by (simp add: signed_take_bit_int_eq_self)
  finally show ?thesis .
qed

lemma cnt_step0:
  "cnt_state w = 0 \<Longrightarrow>
   command_cnt w =
     w\<lparr>shell_state := (shell_state w)
          \<lparr>output_buf := CRLF @ ''Called '' @ printf_i (sint (cnt_cnt w)) @ '' times''\<rparr>,
       shell_fp := Some Shell_state_output,
       cnt_state := 1\<rparr>"
  by (simp add: command_cnt_def)

lemma cnt_step1:
  "cnt_state w = 1 \<Longrightarrow>
   command_cnt w =
     w\<lparr>cnt_cnt := cnt_cnt w + 1, cnt_state := 0, shell_fp := Some Shell_state_output,
       shell_state := (shell_state w)\<lparr>command_fp := None\<rparr>\<rparr>"
  by (simp add: command_cnt_def RETURN_def DONE_def)

text \<open>One run of command_cnt from state 0: two calls, the second one completes.\<close>

lemma cnt_run:
  assumes "cnt_state w = 0" and "active w"
  shows "command_cnt (command_cnt w) =
           w\<lparr>shell_state := (shell_state w)
                \<lparr>output_buf := CRLF @ ''Called '' @ printf_i (sint (cnt_cnt w)) @ '' times'',
                  command_fp := None\<rparr>,
             shell_fp := Some Shell_state_output,
             cnt_cnt := cnt_cnt w + 1, cnt_state := 0\<rparr>"
    and "completes_in command_cnt 2 w (command_cnt (command_cnt w))"
proof -
  let ?w1 = "command_cnt w"
  have s1: "cnt_state ?w1 = 1" by (simp add: cnt_step0 assms(1))
  have a1: "active ?w1" using assms(2) by (simp add: cnt_step0 assms(1) active_def)
  show two: "command_cnt ?w1 =
           w\<lparr>shell_state := (shell_state w)
                \<lparr>output_buf := CRLF @ ''Called '' @ printf_i (sint (cnt_cnt w)) @ '' times'',
                  command_fp := None\<rparr>,
             shell_fp := Some Shell_state_output,
             cnt_cnt := cnt_cnt w + 1, cnt_state := 0\<rparr>"
    by (simp add: cnt_step1 [OF s1]) (simp add: cnt_step0 assms(1))
  have "run_to command_cnt (Suc (Suc 0)) w (command_cnt ?w1)"
    by (intro run_to_last run_to_one assms(2) a1)
  moreover have "\<not> active (command_cnt ?w1)"
    by (simp add: two active_def)
  ultimately show "completes_in command_cnt 2 w (command_cnt ?w1)"
    by (simp add: completes_in_def numeral_2_eq_2)
qed

text \<open>
  C6: two runs of command_cnt, each from state 0 to completion. Between them the shell
  selects the command again; whatever else it changes, it cannot reach the statics of
  command_cnt, so the second run starts in any world \<open>w2\<close> that holds the statics the
  first run left. Each run takes two calls. The first call writes the text with the
  value the counter has before the run, the second call adds 1 to the counter; so the
  second run reports 1 more than the first. The hypothesis on the counter keeps the two
  increments within the range of \<open>int\<close> (beyond it C leaves \<open>cnt++\<close> undefined).
\<close>

theorem cnt_two_runs:
  assumes "cnt_state w = 0" and "active w"
    and "sint (cnt_cnt w) + 2 \<le> INT_MAX"
    and "cnt_cnt w2 = cnt_cnt (command_cnt (command_cnt w))"
    and "cnt_state w2 = cnt_state (command_cnt (command_cnt w))"
    and "active w2"
  shows "output_buf (shell_state (command_cnt w)) =
           CRLF @ ''Called '' @ printf_i (sint (cnt_cnt w)) @ '' times''
         \<and> cnt_cnt (command_cnt w) = cnt_cnt w
         \<and> completes_in command_cnt 2 w (command_cnt (command_cnt w))
         \<and> cnt_cnt (command_cnt (command_cnt w)) = cnt_cnt w + 1
         \<and> sint (cnt_cnt (command_cnt (command_cnt w))) = sint (cnt_cnt w) + 1
         \<and> cnt_state (command_cnt (command_cnt w)) = 0
         \<and> output_buf (shell_state (command_cnt w2)) =
             CRLF @ ''Called '' @ printf_i (sint (cnt_cnt w) + 1) @ '' times''
         \<and> cnt_cnt (command_cnt w2) = cnt_cnt w2
         \<and> completes_in command_cnt 2 w2 (command_cnt (command_cnt w2))
         \<and> cnt_cnt (command_cnt (command_cnt w2)) = cnt_cnt w + 2
         \<and> sint (cnt_cnt (command_cnt (command_cnt w2))) = sint (cnt_cnt w) + 2"
proof -
  have b1: "sint (cnt_cnt w) < 2147483647"
    using assms(3) by (simp add: INT_MAX_def)
  have i1: "sint (cnt_cnt w + 1) = sint (cnt_cnt w) + 1"
    by (rule sint_succ [OF b1])
  have b2: "sint (cnt_cnt w + 1) < 2147483647"
    using assms(3) i1 by (simp add: INT_MAX_def)
  have i2: "sint (cnt_cnt w + 1 + 1) = sint (cnt_cnt w) + 2"
    using sint_succ [OF b2] i1 by simp
  note r1 = cnt_run [OF assms(1,2)]
  have c2: "cnt_cnt w2 = cnt_cnt w + 1" using assms(4) by (simp add: r1(1))
  have s2: "cnt_state w2 = 0" using assms(5) by (simp add: r1(1))
  note r2 = cnt_run [OF s2 assms(6)]
  have first: "output_buf (shell_state (command_cnt w)) =
           CRLF @ ''Called '' @ printf_i (sint (cnt_cnt w)) @ '' times''
         \<and> cnt_cnt (command_cnt w) = cnt_cnt w"
    by (simp add: cnt_step0 assms(1))
  have second: "output_buf (shell_state (command_cnt w2)) =
             CRLF @ ''Called '' @ printf_i (sint (cnt_cnt w) + 1) @ '' times''
         \<and> cnt_cnt (command_cnt w2) = cnt_cnt w2"
    by (simp add: cnt_step0 s2 c2 i1)
  have after1: "cnt_cnt (command_cnt (command_cnt w)) = cnt_cnt w + 1
         \<and> sint (cnt_cnt (command_cnt (command_cnt w))) = sint (cnt_cnt w) + 1
         \<and> cnt_state (command_cnt (command_cnt w)) = 0"
    by (simp add: r1(1) i1)
  have "cnt_cnt (command_cnt (command_cnt w2)) = cnt_cnt w + 1 + 1"
    by (simp add: r2(1) c2)
  then have after2: "cnt_cnt (command_cnt (command_cnt w2)) = cnt_cnt w + 2
         \<and> sint (cnt_cnt (command_cnt (command_cnt w2))) = sint (cnt_cnt w) + 2"
    using i2 by simp
  show ?thesis using first second after1 after2 r1(2) r2(2) by blast
qed

theorem cnt_two_runs_witness:
  "cnt_state (selected Command_cnt ''cnt'') = 0
   \<and> active (selected Command_cnt ''cnt'')
   \<and> sint (cnt_cnt (selected Command_cnt ''cnt'')) + 2 \<le> INT_MAX
   \<and> active ((command_cnt (command_cnt (selected Command_cnt ''cnt'')))
               \<lparr>shell_state := \<lparr>input_buf = ''cnt'', output_buf = [], busy = 0,
                                command_fp = Some Command_cnt\<rparr>\<rparr>)
   \<and> output_buf (shell_state (command_cnt (selected Command_cnt ''cnt''))) =
        CRLF @ ''Called 0 times''
   \<and> output_buf (shell_state (command_cnt
        ((command_cnt (command_cnt (selected Command_cnt ''cnt'')))
               \<lparr>shell_state := \<lparr>input_buf = ''cnt'', output_buf = [], busy = 0,
                                command_fp = Some Command_cnt\<rparr>\<rparr>))) =
        CRLF @ ''Called 1 times''
   \<and> sint (cnt_cnt (command_cnt (command_cnt
        ((command_cnt (command_cnt (selected Command_cnt ''cnt'')))
               \<lparr>shell_state := \<lparr>input_buf = ''cnt'', output_buf = [], busy = 0,
                                command_fp = Some Command_cnt\<rparr>\<rparr>)))) = 2"
proof -
  let ?w = "selected Command_cnt ''cnt''"
  let ?w2 = "(command_cnt (command_cnt ?w))
               \<lparr>shell_state := \<lparr>input_buf = ''cnt'', output_buf = [], busy = 0,
                                command_fp = Some Command_cnt\<rparr>\<rparr>"
  have s: "cnt_state ?w = 0" by (simp add: selected_def)
  have a: "active ?w" by (simp add: selected_def active_def)
  have c: "cnt_cnt ?w = 0" by (simp add: selected_def)
  have b: "sint (cnt_cnt ?w) + 2 \<le> INT_MAX" by (simp add: c INT_MAX_def)
  have k: "cnt_cnt ?w2 = cnt_cnt (command_cnt (command_cnt ?w))" by simp
  have t: "cnt_state ?w2 = cnt_state (command_cnt (command_cnt ?w))" by simp
  have a2: "active ?w2" by (simp add: active_def)
  have p0: "printf_i 0 = ''0''" by code_simp
  have p1: "printf_i 1 = ''1''" by code_simp
  show ?thesis
    using cnt_two_runs [OF s a b k t a2] s a b a2
    by (simp add: c p0 p1)
qed

section \<open>What every command does when it completes\<close>

lemma cnt_completes:
  assumes "active w" and "\<not> active (command_cnt w)"
  shows "cnt_state w = 1 \<and> shell_fp (command_cnt w) = Some Shell_state_output
         \<and> cnt_state (command_cnt w) = 0"
proof (cases "cnt_state w = 0")
  case True
  then show ?thesis using assms by (simp add: cnt_step0 active_def)
next
  case False
  show ?thesis
  proof (cases "cnt_state w = 1")
    case True
    then show ?thesis by (simp add: cnt_step1)
  next
    case False
    then have "command_cnt w = w" using \<open>cnt_state w \<noteq> 0\<close> by (simp add: command_cnt_def)
    then show ?thesis using assms by simp
  qed
qed

lemma cnt_exit_state: "cnt_state w = 1 \<Longrightarrow> \<not> active (command_cnt w)"
  by (simp add: cnt_step1 active_def)

lemma load_step0:
  "load_state w = 0 \<Longrightarrow>
   command_load w = (if busy (shell_state w) = 0 then w\<lparr>load_state := 1\<rparr> else w)"
  by (simp add: command_load_def)

lemma load_step1:
  "load_state w = 1 \<Longrightarrow>
   command_load w =
     w\<lparr>shell_state := (shell_state w)
          \<lparr>output_buf := CRLF @ ''Values : '' @ printf_i (sint (load_cnt w)) @ '' ''
                          @ printf_i (sint (accu_shown (load_accu w)))\<rparr>,
       load_cnt := load_cnt w + 1,
       shell_fp := Some Shell_state_output,
       load_state := 2\<rparr>"
  by (simp add: command_load_def)

lemma load_step2_end:
  "load_state w = 2 \<Longrightarrow> load_cnt w = 500 \<Longrightarrow>
   command_load w =
     w\<lparr>load_state := 0, load_cnt := 0, shell_fp := Some Shell_state_output,
       shell_state := (shell_state w)\<lparr>command_fp := None\<rparr>\<rparr>"
  by (simp add: command_load_def)

lemma load_step2_again:
  "load_state w = 2 \<Longrightarrow> load_cnt w \<noteq> 500 \<Longrightarrow>
   command_load w = w\<lparr>load_state := 0, load_accu := load_loop (load_cnt w) (load_accu w)\<rparr>"
  by (simp add: command_load_def)

lemma load_completes:
  assumes "active w" and "\<not> active (command_load w)"
  shows "load_state w = 2 \<and> load_cnt w = 500
         \<and> shell_fp (command_load w) = Some Shell_state_output
         \<and> load_state (command_load w) = 0"
proof -
  consider "load_state w = 0" | "load_state w = 1"
    | "load_state w = 2" "load_cnt w \<noteq> 500"
    | "load_state w = 2" "load_cnt w = 500"
    | "load_state w \<noteq> 0" "load_state w \<noteq> 1" "load_state w \<noteq> 2"
    by blast
  then show ?thesis
  proof cases
    case 1
    then show ?thesis using assms by (simp add: load_step0 active_def split: if_splits)
  next
    case 2
    then show ?thesis using assms by (simp add: load_step1 active_def)
  next
    case 3
    then show ?thesis using assms by (simp add: load_step2_again active_def)
  next
    case 4
    then show ?thesis by (simp add: load_step2_end)
  next
    case 5
    then have "command_load w = w" by (simp add: command_load_def)
    then show ?thesis using assms by simp
  qed
qed

lemma load_exit_state:
  "load_state w = 2 \<Longrightarrow> load_cnt w = 500 \<Longrightarrow> \<not> active (command_load w)"
  by (simp add: load_step2_end active_def)

lemma flash_completes:
  assumes "active w" and "\<not> active (command_flash_with D w)"
  shows "flash_state w = 6 \<and> shell_fp (command_flash_with D w) = Some Shell_state_output
         \<and> flash_state (command_flash_with D w) = 0"
proof -
  obtain rv a where p: "sscanf_flash (input_buf (shell_state w)) (flash_arg w) = (rv, a)"
    by (cases "sscanf_flash (input_buf (shell_state w)) (flash_arg w)")
  consider "flash_state w = 0" | "flash_state w = 1" | "flash_state w = 2"
    | "flash_state w = 3" | "flash_state w = 4" | "flash_state w = 5" | "flash_state w = 6"
    | "flash_state w \<noteq> 0" "flash_state w \<noteq> 1" "flash_state w \<noteq> 2" "flash_state w \<noteq> 3"
      "flash_state w \<noteq> 4" "flash_state w \<noteq> 5" "flash_state w \<noteq> 6"
    by blast
  then show ?thesis
  proof cases
    case 1
    then show ?thesis using assms flash_step0 [OF 1 p, of D] by (simp add: active_def)
  next
    case 2
    then show ?thesis using assms by (simp add: flash_step1 active_def)
  next
    case 3
    then show ?thesis using assms by (simp add: flash_step2 active_def)
  next
    case 4
    then show ?thesis using assms by (simp add: flash_step3 active_def)
  next
    case 5
    then show ?thesis using assms by (simp add: flash_step4 active_def)
  next
    case 6
    then show ?thesis using assms by (simp add: flash_step5 active_def)
  next
    case 7
    then show ?thesis by (simp add: flash_step6)
  next
    case 8
    then have "command_flash_with D w = w" by (simp add: command_flash_with_def)
    then show ?thesis using assms by simp
  qed
qed

lemma flash_exit_state: "flash_state w = 6 \<Longrightarrow> \<not> active (command_flash_with D w)"
  by (simp add: flash_step6 active_def)

text \<open>
  C7: when a call of a command function clears shell_state.command_fp of an active
  command, it also leaves shell_fp at shell_state_output and the command's own state at
  0, and the call was made in the one state that ends the command: state 1 of
  command_cnt, state 2 of command_load (which ends the command when its counter has
  reached 500), state 6 of command_flash. In that state the command does complete.
  command_led_toggle has no state and completes on every call, with the same two
  assignments.
\<close>

theorem completion_postcondition:
  "(active w \<and> \<not> active (command_cnt w) \<longrightarrow>
      command_fp (shell_state (command_cnt w)) = None
      \<and> shell_fp (command_cnt w) = Some Shell_state_output
      \<and> cnt_state (command_cnt w) = 0 \<and> cnt_state w = 1)
   \<and> (cnt_state w = 1 \<longrightarrow> \<not> active (command_cnt w))
   \<and> command_fp (shell_state (command_led_toggle w)) = None
   \<and> shell_fp (command_led_toggle w) = Some Shell_state_output
   \<and> (active w \<and> \<not> active (command_load w) \<longrightarrow>
      command_fp (shell_state (command_load w)) = None
      \<and> shell_fp (command_load w) = Some Shell_state_output
      \<and> load_state (command_load w) = 0 \<and> load_state w = 2)
   \<and> (load_state w = 2 \<and> load_cnt w = 500 \<longrightarrow> \<not> active (command_load w))
   \<and> (active w \<and> \<not> active (command_flash w) \<longrightarrow>
      command_fp (shell_state (command_flash w)) = None
      \<and> shell_fp (command_flash w) = Some Shell_state_output
      \<and> flash_state (command_flash w) = 0 \<and> flash_state w = 6)
   \<and> (flash_state w = 6 \<longrightarrow> \<not> active (command_flash w))"
proof -
  have cnt: "active w \<and> \<not> active (command_cnt w) \<longrightarrow>
      command_fp (shell_state (command_cnt w)) = None
      \<and> shell_fp (command_cnt w) = Some Shell_state_output
      \<and> cnt_state (command_cnt w) = 0 \<and> cnt_state w = 1"
    using cnt_completes [of w] by (auto simp add: active_def)
  have led: "command_fp (shell_state (command_led_toggle w)) = None
      \<and> shell_fp (command_led_toggle w) = Some Shell_state_output"
    by (simp add: command_led_toggle_def HAL_GPIO_TogglePin_def)
  have load: "active w \<and> \<not> active (command_load w) \<longrightarrow>
      command_fp (shell_state (command_load w)) = None
      \<and> shell_fp (command_load w) = Some Shell_state_output
      \<and> load_state (command_load w) = 0 \<and> load_state w = 2"
    using load_completes [of w] by (auto simp add: active_def)
  have flash: "active w \<and> \<not> active (command_flash w) \<longrightarrow>
      command_fp (shell_state (command_flash w)) = None
      \<and> shell_fp (command_flash w) = Some Shell_state_output
      \<and> flash_state (command_flash w) = 0 \<and> flash_state w = 6"
    using flash_completes [of w max_delay] by (auto simp add: active_def command_flash_def)
  show ?thesis
    using cnt led load flash cnt_exit_state [of w] load_exit_state [of w]
      flash_exit_state [of w max_delay]
    by (simp only: command_flash_def) blast
qed

theorem completion_postcondition_witness:
  "active ((selected Command_cnt [])
             \<lparr>cnt_state := 1, load_state := 2, load_cnt := 500, flash_state := 6\<rparr>)
   \<and> cnt_state ((selected Command_cnt [])
             \<lparr>cnt_state := 1, load_state := 2, load_cnt := 500, flash_state := 6\<rparr>) = 1
   \<and> \<not> active (command_cnt ((selected Command_cnt [])
             \<lparr>cnt_state := 1, load_state := 2, load_cnt := 500, flash_state := 6\<rparr>))
   \<and> shell_fp (command_cnt ((selected Command_cnt [])
             \<lparr>cnt_state := 1, load_state := 2, load_cnt := 500, flash_state := 6\<rparr>))
        = Some Shell_state_output
   \<and> cnt_state (command_cnt ((selected Command_cnt [])
             \<lparr>cnt_state := 1, load_state := 2, load_cnt := 500, flash_state := 6\<rparr>)) = 0
   \<and> \<not> active (command_load ((selected Command_cnt [])
             \<lparr>cnt_state := 1, load_state := 2, load_cnt := 500, flash_state := 6\<rparr>))
   \<and> load_state (command_load ((selected Command_cnt [])
             \<lparr>cnt_state := 1, load_state := 2, load_cnt := 500, flash_state := 6\<rparr>)) = 0
   \<and> \<not> active (command_flash ((selected Command_cnt [])
             \<lparr>cnt_state := 1, load_state := 2, load_cnt := 500, flash_state := 6\<rparr>))
   \<and> flash_state (command_flash ((selected Command_cnt [])
             \<lparr>cnt_state := 1, load_state := 2, load_cnt := 500, flash_state := 6\<rparr>)) = 0"
proof -
  let ?w = "(selected Command_cnt [])
             \<lparr>cnt_state := 1, load_state := 2, load_cnt := 500, flash_state := 6\<rparr>"
  have a: "active ?w" by (simp add: selected_def active_def)
  have c: "cnt_state ?w = 1" by simp
  have l: "load_state ?w = 2 \<and> load_cnt ?w = 500" by simp
  have f: "flash_state ?w = 6" by simp
  show ?thesis
    using completion_postcondition [of ?w] a c l f by blast
qed

end
